theory Spec2Isabelle
  imports Main
begin

unbundle bit_operations_syntax

section \<open>Python values\<close>

text \<open>
  Transactions are \<^verbatim>\<open>Dict[str, Any]\<close>. The values the ledger stores are the ones the
  \<^verbatim>\<open>json\<close> module can serialise: \<^verbatim>\<open>None\<close>, booleans, integers, floats, strings, lists,
  tuples and dictionaries with string keys. A dictionary is an association list in
  insertion order.

  A float is only ever compared with zero and printed by \<^verbatim>\<open>repr\<close>, so a finite float is
  kept as the decimal \<^verbatim>\<open>repr\<close> prints: \<open>Finite neg m e\<close> is the double whose shortest
  round-trip decimal is \<open>(-1)^neg * m * 10^e\<close> (\<open>m\<close> has no trailing zero digit; zero is
  \<open>m = 0\<close>, \<open>e = 0\<close>).
\<close>

datatype pyfloat = Finite bool nat int | Infinity bool | NaN

datatype pyval =
    PNone
  | PBool bool
  | PInt int
  | PFloat pyfloat
  | PStr string
  | PList "pyval list"
  | PTuple "pyval list"
  | PDict "(string \<times> pyval) list"

text \<open>The exceptions the ledger raises; their messages are left out.\<close>

datatype error =
    ValueError
  | KeyError string
  | IndexError

section \<open>json.dumps with sort_keys\<close>

definition digit_char :: "nat \<Rightarrow> char" where
  "digit_char n = ''0123456789abcdef'' ! (n mod 16)"

fun nat_str :: "nat \<Rightarrow> string" where
  "nat_str n = (if n < 10 then [digit_char n] else nat_str (n div 10) @ [digit_char (n mod 10)])"

declare nat_str.simps [simp del]

definition int_str :: "int \<Rightarrow> string" where
  "int_str i = (if i < 0 then CHR ''-'' # nat_str (nat (- i)) else nat_str (nat i))"

text \<open>
  \<^verbatim>\<open>float.__repr__\<close>: with the digits \<open>ds\<close> and the decimal point after \<open>decpt\<close> of them,
  the exponent form is used when \<open>decpt \<le> -4\<close> or \<open>decpt > 16\<close>.
\<close>

definition float_repr_finite :: "nat \<Rightarrow> int \<Rightarrow> string" where
  "float_repr_finite m e =
     (let ds = nat_str m;
          n = int (length ds);
          decpt = n + e
      in if decpt \<le> - 4 \<or> 16 < decpt then
           (let x = decpt - 1;
                xs = nat_str (nat \<bar>x\<bar>)
            in take 1 ds @ (if 1 < n then CHR ''.'' # drop 1 ds else [])
               @ ''e'' @ (if x < 0 then ''-'' else ''+'')
               @ (if length xs < 2 then CHR ''0'' # xs else xs))
         else if decpt \<le> 0 then
           ''0.'' @ replicate (nat (- decpt)) CHR ''0'' @ ds
         else if n \<le> decpt then
           ds @ replicate (nat (decpt - n)) CHR ''0'' @ ''.0''
         else
           take (nat decpt) ds @ CHR ''.'' # drop (nat decpt) ds)"

fun float_str :: "pyfloat \<Rightarrow> string" where
  "float_str NaN = ''NaN''"
| "float_str (Infinity neg) = (if neg then ''-Infinity'' else ''Infinity'')"
| "float_str (Finite neg m e) = (if neg then CHR ''-'' # float_repr_finite m e else float_repr_finite m e)"

text \<open>
  \<^verbatim>\<open>ensure_ascii\<close> escaping of one character: the quote, the backslash and the short
  escapes, and \<^verbatim>\<open>\u00XX\<close> for every other character outside space to tilde.
\<close>

definition json_escape :: "char \<Rightarrow> string" where
  "json_escape c =
     (if c = CHR 0x22 then [CHR 0x5C, CHR 0x22]
      else if c = CHR 0x5C then [CHR 0x5C, CHR 0x5C]
      else if c = CHR 0x0A then [CHR 0x5C, CHR ''n'']
      else if c = CHR 0x0D then [CHR 0x5C, CHR ''r'']
      else if c = CHR 0x09 then [CHR 0x5C, CHR ''t'']
      else if c = CHR 0x08 then [CHR 0x5C, CHR ''b'']
      else if c = CHR 0x0C then [CHR 0x5C, CHR ''f'']
      else if (of_char c :: nat) < 32 \<or> 126 < (of_char c :: nat) then
        [CHR 0x5C, CHR ''u'', CHR ''0'', CHR ''0'',
         digit_char (of_char c div 16), digit_char (of_char c mod 16)]
      else [c])"

definition json_string :: "string \<Rightarrow> string" where
  "json_string s = CHR 0x22 # concat (map json_escape s) @ [CHR 0x22]"

text \<open>Python compares strings code point by code point.\<close>

fun str_le :: "string \<Rightarrow> string \<Rightarrow> bool" where
  "str_le [] _ = True"
| "str_le (_ # _) [] = False"
| "str_le (a # as) (b # bs) =
     ((of_char a :: nat) < of_char b \<or> (a = b \<and> str_le as bs))"

fun insert_item :: "string \<times> 'a \<Rightarrow> (string \<times> 'a) list \<Rightarrow> (string \<times> 'a) list" where
  "insert_item kv [] = [kv]"
| "insert_item kv (x # xs) =
     (if str_le (fst x) (fst kv) then x # insert_item kv xs else kv # x # xs)"

definition sort_items :: "(string \<times> 'a) list \<Rightarrow> (string \<times> 'a) list" where
  "sort_items kvs = foldl (\<lambda>acc kv. insert_item kv acc) [] kvs"

fun join :: "string \<Rightarrow> string list \<Rightarrow> string" where
  "join sep [] = []"
| "join sep [x] = x"
| "join sep (x # y # ys) = x @ sep @ join sep (y # ys)"

fun json_dumps :: "pyval \<Rightarrow> string"
  and dumps_list :: "pyval list \<Rightarrow> string list"
  and dumps_items :: "(string \<times> pyval) list \<Rightarrow> (string \<times> string) list" where
  "json_dumps PNone = ''null''"
| "json_dumps (PBool b) = (if b then ''true'' else ''false'')"
| "json_dumps (PInt i) = int_str i"
| "json_dumps (PFloat f) = float_str f"
| "json_dumps (PStr s) = json_string s"
| "json_dumps (PList xs) = ''['' @ join '', '' (dumps_list xs) @ '']''"
| "json_dumps (PTuple xs) = ''['' @ join '', '' (dumps_list xs) @ '']''"
| "json_dumps (PDict kvs) =
     ''{'' @ join '', '' (map (\<lambda>(k, t). json_string k @ '': '' @ t) (sort_items (dumps_items kvs))) @ ''}''"
| "dumps_list [] = []"
| "dumps_list (x # xs) = json_dumps x # dumps_list xs"
| "dumps_items [] = []"
| "dumps_items ((k, v) # kvs) = (k, json_dumps v) # dumps_items kvs"

section \<open>hashlib.sha256\<close>

text \<open>
  SHA-256 (FIPS 180-4) over bytes, with the digest as 64 lowercase hex characters. A
  32-bit word is a natural number below \<open>2^32\<close>, with the wrap-around of the additions
  written out.
\<close>

text \<open>The round constants, eight to a row.\<close>

definition sha256_k :: "nat list" where
  "sha256_k = concat [
    [0x428a2f98, 0x71374491, 0xb5c0fbcf, 0xe9b5dba5, 0x3956c25b, 0x59f111f1, 0x923f82a4, 0xab1c5ed5],
    [0xd807aa98, 0x12835b01, 0x243185be, 0x550c7dc3, 0x72be5d74, 0x80deb1fe, 0x9bdc06a7, 0xc19bf174],
    [0xe49b69c1, 0xefbe4786, 0x0fc19dc6, 0x240ca1cc, 0x2de92c6f, 0x4a7484aa, 0x5cb0a9dc, 0x76f988da],
    [0x983e5152, 0xa831c66d, 0xb00327c8, 0xbf597fc7, 0xc6e00bf3, 0xd5a79147, 0x06ca6351, 0x14292967],
    [0x27b70a85, 0x2e1b2138, 0x4d2c6dfc, 0x53380d13, 0x650a7354, 0x766a0abb, 0x81c2c92e, 0x92722c85],
    [0xa2bfe8a1, 0xa81a664b, 0xc24b8b70, 0xc76c51a3, 0xd192e819, 0xd6990624, 0xf40e3585, 0x106aa070],
    [0x19a4c116, 0x1e376c08, 0x2748774c, 0x34b0bcb5, 0x391c0cb3, 0x4ed8aa4a, 0x5b9cca4f, 0x682e6ff3],
    [0x748f82ee, 0x78a5636f, 0x84c87814, 0x8cc70208, 0x90befffa, 0xa4506ceb, 0xbef9a3f7, 0xc67178f2]
    ]"

definition sha256_h0 :: "nat list" where
  "sha256_h0 = [0x6a09e667, 0xbb67ae85, 0x3c6ef372, 0xa54ff53a,
                0x510e527f, 0x9b05688c, 0x1f83d9ab, 0x5be0cd19]"

text \<open>Addition modulo \<open>2^32\<close>, rotation and shift to the right, complement inside \<^verbatim>\<open>ch\<close>.\<close>

definition add32 :: "nat \<Rightarrow> nat \<Rightarrow> nat" where
  "add32 x y = (x + y) mod 4294967296"

definition rotr :: "nat \<Rightarrow> nat \<Rightarrow> nat" where
  "rotr n x = x div 2 ^ n OR (x * 2 ^ (32 - n)) mod 4294967296"

definition shr :: "nat \<Rightarrow> nat \<Rightarrow> nat" where
  "shr n x = x div 2 ^ n"

definition small_sigma0 :: "nat \<Rightarrow> nat" where
  "small_sigma0 x = rotr 7 x XOR rotr 18 x XOR shr 3 x"

definition small_sigma1 :: "nat \<Rightarrow> nat" where
  "small_sigma1 x = rotr 17 x XOR rotr 19 x XOR shr 10 x"

definition big_sigma0 :: "nat \<Rightarrow> nat" where
  "big_sigma0 x = rotr 2 x XOR rotr 13 x XOR rotr 22 x"

definition big_sigma1 :: "nat \<Rightarrow> nat" where
  "big_sigma1 x = rotr 6 x XOR rotr 11 x XOR rotr 25 x"

definition ch :: "nat \<Rightarrow> nat \<Rightarrow> nat \<Rightarrow> nat" where
  "ch x y z = (x AND y) XOR ((4294967295 - x) AND z)"

definition maj :: "nat \<Rightarrow> nat \<Rightarrow> nat \<Rightarrow> nat" where
  "maj x y z = (x AND y) XOR (x AND z) XOR (y AND z)"

text \<open>Padding: the byte 0x80, zero bytes up to 56 modulo 64, the bit length in 8 bytes.\<close>

definition be_bytes :: "nat \<Rightarrow> nat \<Rightarrow> nat list" where
  "be_bytes k n = map (\<lambda>i. (n div 256 ^ (k - 1 - i)) mod 256) [0..<k]"

definition sha256_pad :: "nat list \<Rightarrow> nat list" where
  "sha256_pad m =
     m @ [128] @ replicate ((119 - length m mod 64) mod 64) 0 @ be_bytes 8 (8 * length m)"

fun be_words :: "nat list \<Rightarrow> nat list" where
  "be_words (a # b # c # d # rest) = (((a * 256 + b) * 256 + c) * 256 + d) # be_words rest"
| "be_words _ = []"

fun chunks :: "nat \<Rightarrow> nat list \<Rightarrow> nat list list" where
  "chunks 0 xs = []"
| "chunks (Suc n) xs = (if xs = [] then [] else take 16 xs # chunks n (drop 16 xs))"

text \<open>The message schedule is built newest word first: the head is \<open>w[t-1]\<close>.\<close>

fun schedule :: "nat \<Rightarrow> nat list \<Rightarrow> nat list" where
  "schedule 0 ws = ws"
| "schedule (Suc n) ws =
     schedule n (add32 (add32 (add32 (small_sigma1 (ws ! 1)) (ws ! 6)) (small_sigma0 (ws ! 14))) (ws ! 15) # ws)"

text \<open>One round: the two temporaries, then the eight working variables shifted.\<close>

definition round_t1 :: "nat list \<Rightarrow> nat \<times> nat \<Rightarrow> nat" where
  "round_t1 s kw =
     add32 (add32 (add32 (add32 (s ! 7) (big_sigma1 (s ! 4))) (ch (s ! 4) (s ! 5) (s ! 6))) (fst kw)) (snd kw)"

definition round_t2 :: "nat list \<Rightarrow> nat" where
  "round_t2 s = add32 (big_sigma0 (s ! 0)) (maj (s ! 0) (s ! 1) (s ! 2))"

definition round_state :: "nat list \<Rightarrow> nat \<Rightarrow> nat \<Rightarrow> nat list" where
  "round_state s t1 t2 =
     [add32 t1 t2, s ! 0, s ! 1, s ! 2, add32 (s ! 3) t1, s ! 4, s ! 5, s ! 6]"

definition sha256_round :: "nat list \<Rightarrow> nat \<times> nat \<Rightarrow> nat list" where
  "sha256_round s kw = round_state s (round_t1 s kw) (round_t2 s)"

definition sha256_compress :: "nat list \<Rightarrow> nat list \<Rightarrow> nat list" where
  "sha256_compress hs blk =
     map2 add32 hs (foldl sha256_round hs (zip sha256_k (rev (schedule 48 (rev blk)))))"

definition hex_word :: "nat \<Rightarrow> string" where
  "hex_word w = map (\<lambda>i. digit_char (w div 16 ^ (7 - i))) [0..<8]"

definition sha256_words :: "nat list \<Rightarrow> string" where
  "sha256_words ws =
     concat (map hex_word (foldl sha256_compress sha256_h0 (chunks (length ws) ws)))"

definition sha256_hexdigest :: "string \<Rightarrow> string" where
  "sha256_hexdigest s = sha256_words (be_words (sha256_pad (map of_char s)))"

section \<open>block.py\<close>

record block =
  index :: int
  timestamp :: pyfloat
  transactions :: "pyval list"
  previous_hash :: string
  nonce :: int
  hash :: string

text \<open>
  \<^verbatim>\<open>compute_hash\<close>: the digest of the JSON text of the five hashed fields, keys sorted.
  The text is ASCII, so \<^verbatim>\<open>encode()\<close> leaves it as it is.
\<close>

definition compute_hash :: "block \<Rightarrow> string" where
  "compute_hash b =
     sha256_hexdigest (json_dumps (PDict [
       (''index'', PInt (index b)),
       (''timestamp'', PFloat (timestamp b)),
       (''transactions'', PList (transactions b)),
       (''previous_hash'', PStr (previous_hash b)),
       (''nonce'', PInt (nonce b))]))"

text \<open>
  The dictionary form of a block. A record read from a file or received from a peer may
  lack keys, so every key is optional; \<^verbatim>\<open>to_dict\<close> sets all six.
\<close>

record block_dict =
  d_index :: "int option"
  d_timestamp :: "pyfloat option"
  d_transactions :: "pyval list option"
  d_previous_hash :: "string option"
  d_nonce :: "int option"
  d_hash :: "string option"

definition to_dict :: "block \<Rightarrow> block_dict" where
  "to_dict b = \<lparr>
     d_index = Some (index b),
     d_timestamp = Some (timestamp b),
     d_transactions = Some (transactions b),
     d_previous_hash = Some (previous_hash b),
     d_nonce = Some (nonce b),
     d_hash = Some (hash b)\<rparr>"

definition get_default :: "'a option \<Rightarrow> 'a \<Rightarrow> 'a" where
  "get_default v dflt = (case v of None \<Rightarrow> dflt | Some x \<Rightarrow> x)"

definition from_dict :: "block_dict \<Rightarrow> error + block" where
  "from_dict data =
     (case d_index data of
        None \<Rightarrow> Inl (KeyError ''index'')
      | Some i \<Rightarrow>
          (case d_timestamp data of
             None \<Rightarrow> Inl (KeyError ''timestamp'')
           | Some t \<Rightarrow>
               Inr \<lparr>index = i,
                    timestamp = t,
                    transactions = get_default (d_transactions data) [],
                    previous_hash = get_default (d_previous_hash data) ''0'',
                    nonce = get_default (d_nonce data) 0,
                    hash = get_default (d_hash data) []\<rparr>))"

text \<open>\<^verbatim>\<open>[Block.from_dict(b) for b in raw_chain]\<close>: the first failure ends the comprehension.\<close>

fun from_dicts :: "block_dict list \<Rightarrow> error + block list" where
  "from_dicts [] = Inr []"
| "from_dicts (d # ds) =
     (case from_dict d of
        Inl e \<Rightarrow> Inl e
      | Inr b \<Rightarrow> (case from_dicts ds of Inl e \<Rightarrow> Inl e | Inr bs \<Rightarrow> Inr (b # bs)))"

section \<open>utils.py\<close>

text \<open>
  \<^verbatim>\<open>isinstance(amount, (int, float))\<close> holds for booleans too (\<^verbatim>\<open>bool\<close> is a subclass of
  \<^verbatim>\<open>int\<close>), and \<^verbatim>\<open>amount <= 0\<close> is false for a NaN.
\<close>

fun is_int_or_float :: "pyval \<Rightarrow> bool" where
  "is_int_or_float (PBool _) = True"
| "is_int_or_float (PInt _) = True"
| "is_int_or_float (PFloat _) = True"
| "is_int_or_float _ = False"

fun le_zero :: "pyval \<Rightarrow> bool" where
  "le_zero (PBool b) = (\<not> b)"
| "le_zero (PInt i) = (i \<le> 0)"
| "le_zero (PFloat (Finite neg m e)) = (m = 0 \<or> neg)"
| "le_zero (PFloat (Infinity neg)) = neg"
| "le_zero (PFloat NaN) = False"
| "le_zero _ = False"

definition validate_transaction :: "(string \<times> pyval) list \<Rightarrow> error + unit" where
  "validate_transaction transaction =
     (let required_fields = [''sender'', ''recipient'', ''amount''];
          missing = filter (\<lambda>k. k \<notin> set (map fst transaction)) required_fields
      in if missing \<noteq> [] then Inl ValueError
         else (case map_of transaction ''amount'' of
                 None \<Rightarrow> Inl (KeyError ''amount'')
               | Some amount \<Rightarrow>
                   if \<not> is_int_or_float amount \<or> le_zero amount then Inl ValueError
                   else Inr ()))"

section \<open>blockchain.py\<close>

record blockchain =
  difficulty :: int
  autosave :: bool
  storage_path :: string
  chain :: "block list"
  pending_transactions :: "pyval list"

subsection \<open>The store\<close>

text \<open>
  A file holds the value \<^verbatim>\<open>json.load\<close> returns for it: a list of block records (the old
  format), a dictionary with the optional keys \<^verbatim>\<open>chain\<close> and \<^verbatim>\<open>pending_transactions\<close>,
  or another JSON value. \<open>Unreadable\<close> is a file whose reading or decoding raises inside
  the \<^verbatim>\<open>try\<close> of \<^verbatim>\<open>load_chain\<close>. Writing a file always succeeds.
\<close>

datatype document =
    ListDoc "block_dict list"
  | DictDoc "block_dict list option" "pyval option"
  | OtherDoc

datatype stored_file = Unreadable | Json document

type_synonym store = "string \<Rightarrow> stored_file option"

text \<open>
  What \<^verbatim>\<open>json.load\<close> returns for the text \<^verbatim>\<open>json.dump\<close> wrote for a value: a tuple is
  written as an array and read back as a list.
\<close>

fun json_decoded :: "pyval \<Rightarrow> pyval"
  and decoded_list :: "pyval list \<Rightarrow> pyval list"
  and decoded_items :: "(string \<times> pyval) list \<Rightarrow> (string \<times> pyval) list" where
  "json_decoded (PList xs) = PList (decoded_list xs)"
| "json_decoded (PTuple xs) = PList (decoded_list xs)"
| "json_decoded (PDict kvs) = PDict (decoded_items kvs)"
| "json_decoded PNone = PNone"
| "json_decoded (PBool b) = PBool b"
| "json_decoded (PInt i) = PInt i"
| "json_decoded (PFloat f) = PFloat f"
| "json_decoded (PStr s) = PStr s"
| "decoded_list [] = []"
| "decoded_list (x # xs) = json_decoded x # decoded_list xs"
| "decoded_items [] = []"
| "decoded_items ((k, v) # kvs) = (k, json_decoded v) # decoded_items kvs"

definition decoded_block :: "block_dict \<Rightarrow> block_dict" where
  "decoded_block d = d\<lparr>d_transactions := map_option decoded_list (d_transactions d)\<rparr>"

definition save_chain :: "blockchain \<Rightarrow> store \<Rightarrow> store" where
  "save_chain self fs =
     fs(storage_path self \<mapsto>
        Json (DictDoc (Some (map (\<lambda>b. decoded_block (to_dict b)) (chain self)))
                      (Some (PList (decoded_list (pending_transactions self))))))"

subsection \<open>Proof of work and validation\<close>

definition startswith :: "string \<Rightarrow> string \<Rightarrow> bool" where
  "startswith s p = (take (length p) s = p)"

text \<open>\<^verbatim>\<open>"0" * difficulty\<close>: the empty string when the difficulty is not positive.\<close>

definition zeros :: "int \<Rightarrow> string" where
  "zeros d = replicate (nat d) CHR ''0''"

text \<open>The \<^verbatim>\<open>while True\<close> loop of \<^verbatim>\<open>proof_of_work\<close>; it has no bound.\<close>

partial_function (option) pow_loop :: "string \<Rightarrow> block \<Rightarrow> int \<Rightarrow> block option" where
  "pow_loop prefix blk n =
     (if startswith (compute_hash (blk\<lparr>nonce := n\<rparr>)) prefix
      then Some (blk\<lparr>nonce := n, hash := compute_hash (blk\<lparr>nonce := n\<rparr>)\<rparr>)
      else pow_loop prefix blk (n + 1))"

definition proof_of_work :: "blockchain \<Rightarrow> block \<Rightarrow> block option" where
  "proof_of_work self blk = pow_loop (zeros (difficulty self)) blk 0"

text \<open>The \<^verbatim>\<open>for i in range(1, len(chain))\<close> loop of \<^verbatim>\<open>is_valid_chain\<close>, from \<open>i\<close> on.\<close>

function valid_from :: "string \<Rightarrow> block list \<Rightarrow> nat \<Rightarrow> bool" where
  "valid_from prefix c i =
     (if i < length c then
        (let current = c ! i; prev = c ! (i - 1)
         in if index current \<noteq> int i then False
            else if previous_hash current \<noteq> hash prev then False
            else if \<not> startswith (compute_hash current) prefix
                    \<or> hash current \<noteq> compute_hash current then False
            else valid_from prefix c (i + 1))
      else True)"
  by pat_completeness auto
termination
  by (relation "measure (\<lambda>(prefix, c, i). length c - i)") auto

declare valid_from.simps [simp del]

text \<open>
  \<^verbatim>\<open>chain = chain or self.chain\<close>: an empty list is false in Python, so an empty argument
  is replaced by the ledger's own chain, as a missing one is.
\<close>

definition is_valid_chain :: "blockchain \<Rightarrow> block list option \<Rightarrow> bool" where
  "is_valid_chain self arg =
     (let c = (case arg of None \<Rightarrow> chain self | Some a \<Rightarrow> if a = [] then chain self else a)
      in case c of
           [] \<Rightarrow> False
         | genesis # _ \<Rightarrow>
             if index genesis \<noteq> 0 \<or> previous_hash genesis \<noteq> ''0'' then False
             else if hash genesis = [] \<or> \<not> startswith (hash genesis) (zeros (difficulty self))
                     \<or> hash genesis \<noteq> compute_hash genesis then False
             else valid_from (zeros (difficulty self)) c 1)"

subsection \<open>Block and transaction management\<close>

text \<open>
  Every operation takes the ledger and the store and returns them updated. An operation
  that raises returns the error with the state it leaves behind; one that mines returns
  \<open>None\<close> when the search does not end. \<open>now\<close> is the value of \<^verbatim>\<open>time.time()\<close>.
\<close>

definition autosaved :: "blockchain \<Rightarrow> store \<Rightarrow> store" where
  "autosaved self fs = (if autosave self then save_chain self fs else fs)"

definition create_genesis_block ::
  "pyfloat \<Rightarrow> blockchain \<Rightarrow> store \<Rightarrow> (block \<times> blockchain \<times> store) option" where
  "create_genesis_block now self fs =
     (case proof_of_work self
             \<lparr>index = 0, timestamp = now, transactions = [], previous_hash = ''0'',
              nonce = 0, hash = []\<rparr> of
        None \<Rightarrow> None
      | Some genesis \<Rightarrow>
          (let self' = self\<lparr>chain := chain self @ [genesis]\<rparr>
           in Some (genesis, self', autosaved self' fs)))"

definition add_transaction ::
  "(string \<times> pyval) list \<Rightarrow> blockchain \<Rightarrow> store \<Rightarrow> (error + unit) \<times> blockchain \<times> store" where
  "add_transaction transaction self fs =
     (case validate_transaction transaction of
        Inl e \<Rightarrow> (Inl e, self, fs)
      | Inr _ \<Rightarrow>
          (let self' = self\<lparr>pending_transactions := pending_transactions self @ [PDict transaction]\<rparr>
           in (Inr (), self', autosaved self' fs)))"

definition mine_pending_transactions ::
  "pyfloat \<Rightarrow> blockchain \<Rightarrow> store \<Rightarrow> ((error + block) \<times> blockchain \<times> store) option" where
  "mine_pending_transactions now self fs =
     (if pending_transactions self = [] then Some (Inl ValueError, self, fs)
      else if chain self = [] then Some (Inl IndexError, self, fs)
      else
        (case proof_of_work self
                \<lparr>index = int (length (chain self)), timestamp = now,
                 transactions = pending_transactions self,
                 previous_hash = hash (last (chain self)), nonce = 0, hash = []\<rparr> of
           None \<Rightarrow> None
         | Some blk \<Rightarrow>
             (let self' = self\<lparr>chain := chain self @ [blk], pending_transactions := []\<rparr>
              in Some (Inr blk, self', autosaved self' fs))))"

subsection \<open>Conflict resolution\<close>

text \<open>The loop over the neighbours' chains, with \<open>new_chain\<close> and \<open>max_length\<close> as they stand.\<close>

fun resolve_loop ::
  "blockchain \<Rightarrow> block_dict list list \<Rightarrow> block list option \<times> nat \<Rightarrow> block list option \<times> nat" where
  "resolve_loop self [] acc = acc"
| "resolve_loop self (raw_chain # rest) (new_chain, max_length) =
     (case from_dicts raw_chain of
        Inl _ \<Rightarrow> resolve_loop self rest (new_chain, max_length)
      | Inr chain_blocks \<Rightarrow>
          if max_length < length chain_blocks \<and> is_valid_chain self (Some chain_blocks)
          then resolve_loop self rest (Some chain_blocks, length chain_blocks)
          else resolve_loop self rest (new_chain, max_length))"

definition resolve_conflicts ::
  "block_dict list list \<Rightarrow> blockchain \<Rightarrow> store \<Rightarrow> bool \<times> blockchain \<times> store" where
  "resolve_conflicts neighbour_chains self fs =
     (case fst (resolve_loop self neighbour_chains (None, length (chain self))) of
        None \<Rightarrow> (False, self, fs)
      | Some new_chain \<Rightarrow>
          if new_chain = [] then (False, self, fs)
          else (let self' = self\<lparr>chain := new_chain\<rparr>
                in (True, self', autosaved self' fs)))"

subsection \<open>Persistence\<close>

definition accept_loaded :: "blockchain \<Rightarrow> block list \<Rightarrow> pyval list \<Rightarrow> bool \<times> blockchain" where
  "accept_loaded self loaded_chain pending =
     (if is_valid_chain self (Some loaded_chain)
      then (True, self\<lparr>chain := loaded_chain, pending_transactions := pending\<rparr>)
      else (False, self))"

definition load_chain :: "blockchain \<Rightarrow> store \<Rightarrow> bool \<times> blockchain" where
  "load_chain self fs =
     (case fs (storage_path self) of
        None \<Rightarrow> (False, self)
      | Some Unreadable \<Rightarrow> (False, self)
      | Some (Json (ListDoc blocks)) \<Rightarrow>
          (case from_dicts blocks of
             Inl _ \<Rightarrow> (False, self)
           | Inr loaded_chain \<Rightarrow> accept_loaded self loaded_chain [])
      | Some (Json (DictDoc c p)) \<Rightarrow>
          (case from_dicts (get_default c []) of
             Inl _ \<Rightarrow> (False, self)
           | Inr loaded_chain \<Rightarrow>
               accept_loaded self loaded_chain
                 (case p of Some (PList pending) \<Rightarrow> pending | _ \<Rightarrow> []))
      | Some (Json OtherDoc) \<Rightarrow> (False, self))"

text \<open>The constructor: load the stored chain, or else create the genesis block.\<close>

definition init ::
  "int \<Rightarrow> bool \<Rightarrow> string \<Rightarrow> pyfloat \<Rightarrow> store \<Rightarrow> (blockchain \<times> store) option" where
  "init d a path now fs =
     (let self = \<lparr>difficulty = d, autosave = a, storage_path = path, chain = [],
                  pending_transactions = []\<rparr>
      in case load_chain self fs of
           (True, self') \<Rightarrow> Some (self', fs)
         | (False, self') \<Rightarrow>
             map_option (\<lambda>(g, s, fs'). (s, fs')) (create_genesis_block now self' fs))"

section \<open>The specification's notions\<close>

text \<open>
  A valid chain in the specification's words: not empty; the genesis block has index 0,
  previous hash \<^verbatim>\<open>"0"\<close> and a non-empty stored hash that is its recomputed digest and has
  the difficulty prefix; every later block at position \<open>i\<close> has index \<open>i\<close>, the stored
  hash of its predecessor as previous hash, and a stored hash that is its recomputed
  digest and has the difficulty prefix.
\<close>

definition valid_chain_spec :: "int \<Rightarrow> block list \<Rightarrow> bool" where
  "valid_chain_spec d c \<longleftrightarrow>
     c \<noteq> []
     \<and> index (c ! 0) = 0 \<and> previous_hash (c ! 0) = ''0''
     \<and> hash (c ! 0) \<noteq> [] \<and> hash (c ! 0) = compute_hash (c ! 0)
     \<and> startswith (hash (c ! 0)) (zeros d)
     \<and> (\<forall>i \<in> {1..<length c}.
           index (c ! i) = int i
           \<and> previous_hash (c ! i) = hash (c ! (i - 1))
           \<and> compute_hash (c ! i) = hash (c ! i)
           \<and> startswith (hash (c ! i)) (zeros d))"

text \<open>The candidates of a conflict resolution that deserialise, in the order received.\<close>

definition deserialised :: "block_dict list list \<Rightarrow> block list list" where
  "deserialised raws =
     concat (map (\<lambda>raw. case from_dicts raw of Inl _ \<Rightarrow> [] | Inr c \<Rightarrow> [c]) raws)"

text \<open>Those of them that are valid and strictly longer than the local chain.\<close>

definition qualifying :: "blockchain \<Rightarrow> block_dict list list \<Rightarrow> block list list" where
  "qualifying self raws =
     filter (\<lambda>c. valid_chain_spec (difficulty self) c \<and> length (chain self) < length c)
            (deserialised raws)"

text \<open>The longest list of a sequence, the earliest one among several of that length.\<close>

fun first_longest :: "'a list list \<Rightarrow> 'a list option" where
  "first_longest [] = None"
| "first_longest (c # cs) =
     (case first_longest cs of
        None \<Rightarrow> Some c
      | Some c' \<Rightarrow> if length c < length c' then Some c' else Some c)"




text \<open>A positive number: an integer (or boolean) above zero, or a float above zero.\<close>

fun positive_number :: "pyval \<Rightarrow> bool" where
  "positive_number (PBool b) = b"
| "positive_number (PInt i) = (0 < i)"
| "positive_number (PFloat (Finite neg m e)) = (0 < m \<and> \<not> neg)"
| "positive_number (PFloat (Infinity neg)) = (\<not> neg)"
| "positive_number _ = False"

definition has_key :: "(string \<times> pyval) list \<Rightarrow> string \<Rightarrow> bool" where
  "has_key t k = (k \<in> set (map fst t))"

text \<open>A value with no tuple in it: what JSON can hold as it is.\<close>

fun json_native :: "pyval \<Rightarrow> bool"
  and native_list :: "pyval list \<Rightarrow> bool"
  and native_items :: "(string \<times> pyval) list \<Rightarrow> bool" where
  "json_native (PList xs) = native_list xs"
| "json_native (PTuple xs) = False"
| "json_native (PDict kvs) = native_items kvs"
| "json_native PNone = True"
| "json_native (PBool b) = True"
| "json_native (PInt i) = True"
| "json_native (PFloat f) = True"
| "json_native (PStr s) = True"
| "native_list [] = True"
| "native_list (x # xs) = (json_native x \<and> native_list xs)"
| "native_items [] = True"
| "native_items ((k, v) # kvs) = (json_native v \<and> native_items kvs)"

text \<open>
  The operations of a ledger's life. \<open>exec\<close> is defined where the operation returns:
  it is \<open>None\<close> when the operation raises or does not end.
\<close>

datatype operation =
    AddTransaction "(string \<times> pyval) list"
  | Mine pyfloat
  | Resolve "block_dict list list"

fun exec :: "operation \<Rightarrow> blockchain \<times> store \<Rightarrow> (blockchain \<times> store) option" where
  "exec (AddTransaction t) (self, fs) =
     (case add_transaction t self fs of
        (Inr _, self', fs') \<Rightarrow> Some (self', fs')
      | (Inl _, _, _) \<Rightarrow> None)"
| "exec (Mine now) (self, fs) =
     (case mine_pending_transactions now self fs of
        Some (Inr _, self', fs') \<Rightarrow> Some (self', fs')
      | Some (Inl _, _, _) \<Rightarrow> None
      | None \<Rightarrow> None)"
| "exec (Resolve raws) (self, fs) =
     (case resolve_conflicts raws self fs of (_, self', fs') \<Rightarrow> Some (self', fs'))"

fun run :: "operation list \<Rightarrow> blockchain \<times> store \<Rightarrow> (blockchain \<times> store) option" where
  "run [] st = Some st"
| "run (x # xs) st = (case exec x st of None \<Rightarrow> None | Some st' \<Rightarrow> run xs st')"

section \<open>Sample data\<close>

definition alice_pays_bob :: "(string \<times> pyval) list" where
  "alice_pays_bob = [(''sender'', PStr ''Alice''), (''recipient'', PStr ''Bob''), (''amount'', PInt 10)]"


definition nan_payment :: "(string \<times> pyval) list" where
  "nan_payment = [(''sender'', PStr ''Alice''), (''recipient'', PStr ''Bob''), (''amount'', PFloat NaN)]"

text \<open>A genesis block mined at difficulty 0 at time 1700000000.0, and a ledger holding it.\<close>

definition genesis0 :: block where
  "genesis0 =
     \<lparr>index = 0, timestamp = Finite False 17 8, transactions = [], previous_hash = ''0'',
      nonce = 0,
      hash = compute_hash \<lparr>index = 0, timestamp = Finite False 17 8, transactions = [],
                           previous_hash = ''0'', nonce = 0, hash = []\<rparr>\<rparr>"

definition ledger0 :: blockchain where
  "ledger0 = \<lparr>difficulty = 0, autosave = True, storage_path = ''blockchain.json'',
              chain = [genesis0], pending_transactions = []\<rparr>"

text \<open>The block mined on top of it at time 1700000001.5 from given transactions.\<close>

definition block1 :: "pyval list \<Rightarrow> block" where
  "block1 ts =
     \<lparr>index = 1, timestamp = Finite False 17000000015 (- 1), transactions = ts,
      previous_hash = hash genesis0, nonce = 0,
      hash = compute_hash \<lparr>index = 1, timestamp = Finite False 17000000015 (- 1),
                           transactions = ts, previous_hash = hash genesis0, nonce = 0,
                           hash = []\<rparr>\<rparr>"

text \<open>The ledger after Alice's payment was admitted, and the time of the next mining.\<close>

definition ledger1 :: blockchain where
  "ledger1 = ledger0\<lparr>pending_transactions := [PDict alice_pays_bob]\<rparr>"

definition now1 :: pyfloat where
  "now1 = Finite False 17000000015 (- 1)"

text \<open>
  Chains received from neighbours: one as long as the local chain, one whose record
  lacks its timestamp, and two valid chains of two blocks.
\<close>

definition incomplete_record :: block_dict where
  "incomplete_record = \<lparr>d_index = Some 0, d_timestamp = None, d_transactions = None,
                         d_previous_hash = None, d_nonce = None, d_hash = None\<rparr>"

definition neighbours :: "block_dict list list" where
  "neighbours =
     [[to_dict genesis0],
      [incomplete_record],
      [to_dict genesis0, to_dict (block1 [])],
      [to_dict genesis0, to_dict (block1 [PDict alice_pays_bob])]]"


text \<open>
  At the default difficulty 2 and time 1700000258.0 the search for the genesis block
  fails at nonce 0 and succeeds at nonce 1.
\<close>

definition candidate_d2 :: block where
  "candidate_d2 = \<lparr>index = 0, timestamp = Finite False 1700000258 0, transactions = [],
                   previous_hash = ''0'', nonce = 0, hash = []\<rparr>"

definition genesis_d2 :: block where
  "genesis_d2 = \<lparr>index = 0, timestamp = Finite False 1700000258 0, transactions = [],
                 previous_hash = ''0'', nonce = 1,
                 hash = ''00b0174475055d66179684b68ea304c57357185056c2a123eba3e2b2367e6d00''\<rparr>"

definition ledger_d2 :: blockchain where
  "ledger_d2 = \<lparr>difficulty = 2, autosave = True, storage_path = ''blockchain.json'',
                chain = [genesis_d2], pending_transactions = []\<rparr>"


definition ledger3 :: blockchain where
  "ledger3 = ledger_d2\<lparr>pending_transactions := [PDict alice_pays_bob]\<rparr>"

section \<open>Basic facts\<close>

lemma length_sha256_round: "length (sha256_round s kw) = 8"
  by (simp add: sha256_round_def round_state_def)

lemma length_foldl_round: "length hs = 8 \<Longrightarrow> length (foldl sha256_round hs xs) = 8"
  by (induction xs arbitrary: hs) (simp_all add: length_sha256_round)

lemma length_sha256_compress: "length hs = 8 \<Longrightarrow> length (sha256_compress hs blk) = 8"
  by (simp add: sha256_compress_def length_foldl_round)

lemma length_foldl_compress:
  "length hs = 8 \<Longrightarrow> length (foldl sha256_compress hs blks) = 8"
  by (induction blks arbitrary: hs) (simp_all add: length_sha256_compress)

lemma length_concat_hex: "length (concat (map hex_word ws)) = 8 * length ws"
  by (induction ws) (simp_all add: hex_word_def)

lemma length_sha256_hexdigest: "length (sha256_hexdigest s) = 64"
  by (simp add: sha256_hexdigest_def sha256_words_def length_concat_hex length_foldl_compress
      sha256_h0_def)

lemma compute_hash_nonempty: "compute_hash b \<noteq> []"
proof -
  have "length (compute_hash b) = 64"
    by (simp add: compute_hash_def length_sha256_hexdigest)
  then show ?thesis by auto
qed

lemma compute_hash_hash_update: "compute_hash (b\<lparr>hash := h\<rparr>) = compute_hash b"
  by (simp add: compute_hash_def)

lemma startswith_Nil: "startswith s []"
  by (simp add: startswith_def)

lemma valid_from_iff:
  "valid_from prefix c i \<longleftrightarrow>
     (\<forall>j. i \<le> j \<and> j < length c \<longrightarrow>
        index (c ! j) = int j \<and> previous_hash (c ! j) = hash (c ! (j - 1))
        \<and> compute_hash (c ! j) = hash (c ! j) \<and> startswith (hash (c ! j)) prefix)"
proof (induction prefix c i rule: valid_from.induct)
  case (1 prefix c i)
  show ?case
  proof (cases "i < length c")
    case False
    then have "valid_from prefix c i"
      by (simp add: valid_from.simps [of prefix c i])
    moreover from False have "\<And>j. \<not> (i \<le> j \<and> j < length c)" by linarith
    ultimately show ?thesis by blast
  next
    case True
    let ?ok = "\<lambda>j. index (c ! j) = int j \<and> previous_hash (c ! j) = hash (c ! (j - 1))
        \<and> compute_hash (c ! j) = hash (c ! j) \<and> startswith (hash (c ! j)) prefix"
    show ?thesis
    proof (cases "?ok i")
      case False
      with True have "\<not> valid_from prefix c i"
        by (auto simp add: valid_from.simps [of prefix c i] Let_def)
      moreover from True False have "\<not> (\<forall>j. i \<le> j \<and> j < length c \<longrightarrow> ?ok j)"
        by blast
      ultimately show ?thesis by blast
    next
      case ok: True
      with True have "valid_from prefix c i = valid_from prefix c (i + 1)"
        by (simp add: valid_from.simps [of prefix c i] Let_def)
      also have "\<dots> \<longleftrightarrow> (\<forall>j. i + 1 \<le> j \<and> j < length c \<longrightarrow> ?ok j)"
        using "1.IH" [OF True refl refl] ok by auto
      also have "\<dots> \<longleftrightarrow> (\<forall>j. i \<le> j \<and> j < length c \<longrightarrow> ?ok j)"
      proof
        assume h: "\<forall>j. i + 1 \<le> j \<and> j < length c \<longrightarrow> ?ok j"
        show "\<forall>j. i \<le> j \<and> j < length c \<longrightarrow> ?ok j"
        proof (intro allI impI)
          fix j assume "i \<le> j \<and> j < length c"
          then consider "j = i" | "i + 1 \<le> j \<and> j < length c" by linarith
          then show "?ok j" using ok h by cases auto
        qed
      next
        assume "\<forall>j. i \<le> j \<and> j < length c \<longrightarrow> ?ok j"
        then show "\<forall>j. i + 1 \<le> j \<and> j < length c \<longrightarrow> ?ok j" by simp
      qed
      finally show ?thesis .
    qed
  qed
qed

lemma is_valid_chain_Some:
  "c \<noteq> [] \<Longrightarrow> is_valid_chain self (Some c) = valid_chain_spec (difficulty self) c"
  by (cases c) (auto simp add: is_valid_chain_def valid_chain_spec_def valid_from_iff)

lemma is_valid_chain_None:
  "is_valid_chain self None = valid_chain_spec (difficulty self) (chain self)"
  by (cases "chain self") (auto simp add: is_valid_chain_def valid_chain_spec_def valid_from_iff)
lemma compute_hash_stored:
  "h \<noteq> [] \<Longrightarrow>
   compute_hash \<lparr>index = i, timestamp = t, transactions = ts, previous_hash = p, nonce = n, hash = h\<rparr>
   = compute_hash \<lparr>index = i, timestamp = t, transactions = ts, previous_hash = p, nonce = n, hash = []\<rparr>"
  by (simp add: compute_hash_def)



text \<open>Facts about the search loop.\<close>

lemma pow_loop_hit:
  "startswith (compute_hash (blk\<lparr>nonce := n\<rparr>)) prefix \<Longrightarrow>
   pow_loop prefix blk n = Some (blk\<lparr>nonce := n, hash := compute_hash (blk\<lparr>nonce := n\<rparr>)\<rparr>)"
  by (subst pow_loop.simps) simp

lemma pow_loop_miss:
  "\<not> startswith (compute_hash (blk\<lparr>nonce := n\<rparr>)) prefix \<Longrightarrow>
   pow_loop prefix blk n = pow_loop prefix blk (n + 1)"
  by (subst pow_loop.simps) simp

lemma pow_loop_least:
  "k \<le> m \<Longrightarrow> startswith (compute_hash (blk\<lparr>nonce := m\<rparr>)) prefix \<Longrightarrow>
   (\<forall>j. k \<le> j \<and> j < m \<longrightarrow> \<not> startswith (compute_hash (blk\<lparr>nonce := j\<rparr>)) prefix) \<Longrightarrow>
   pow_loop prefix blk k = Some (blk\<lparr>nonce := m, hash := compute_hash (blk\<lparr>nonce := m\<rparr>)\<rparr>)"
proof (induction "nat (m - k)" arbitrary: k)
  case 0
  then have "k = m" by simp
  with 0 show ?case by (simp add: pow_loop_hit)
next
  case (Suc d)
  then have lt: "k < m" by linarith
  with Suc.prems have miss: "\<not> startswith (compute_hash (blk\<lparr>nonce := k\<rparr>)) prefix"
    by simp
  have "pow_loop prefix blk (k + 1)
        = Some (blk\<lparr>nonce := m, hash := compute_hash (blk\<lparr>nonce := m\<rparr>)\<rparr>)"
  proof (rule Suc.hyps(1))
    show "d = nat (m - (k + 1))" using Suc.hyps(2) by linarith
    show "k + 1 \<le> m" using lt by simp
    show "startswith (compute_hash (blk\<lparr>nonce := m\<rparr>)) prefix" by (rule Suc.prems(2))
    show "\<forall>j. k + 1 \<le> j \<and> j < m \<longrightarrow> \<not> startswith (compute_hash (blk\<lparr>nonce := j\<rparr>)) prefix"
      using Suc.prems(3) by simp
  qed
  with miss show ?case by (simp add: pow_loop_miss)
qed

lemma pow_loop_SomeD:
  assumes "pow_loop prefix blk k = Some y"
  shows "\<exists>m\<ge>k. startswith (compute_hash (blk\<lparr>nonce := m\<rparr>)) prefix
        \<and> y = blk\<lparr>nonce := m, hash := compute_hash (blk\<lparr>nonce := m\<rparr>)\<rparr>"
proof (rule pow_loop.raw_induct
    [OF _ assms, where P = "\<lambda>p b k y. \<exists>m\<ge>k. startswith (compute_hash (b\<lparr>nonce := m\<rparr>)) p
        \<and> y = b\<lparr>nonce := m, hash := compute_hash (b\<lparr>nonce := m\<rparr>)\<rparr>"])
  fix f :: "string \<Rightarrow> block \<Rightarrow> int \<Rightarrow> block option" and p b i z
  assume IH: "\<And>p b i z. f p b i = Some z \<Longrightarrow>
      \<exists>m\<ge>i. startswith (compute_hash (b\<lparr>nonce := m\<rparr>)) p
        \<and> z = b\<lparr>nonce := m, hash := compute_hash (b\<lparr>nonce := m\<rparr>)\<rparr>"
    and body: "(if startswith (compute_hash (b\<lparr>nonce := i\<rparr>)) p
      then Some (b\<lparr>nonce := i, hash := compute_hash (b\<lparr>nonce := i\<rparr>)\<rparr>)
      else f p b (i + 1)) = Some z"
  show "\<exists>m\<ge>i. startswith (compute_hash (b\<lparr>nonce := m\<rparr>)) p
        \<and> z = b\<lparr>nonce := m, hash := compute_hash (b\<lparr>nonce := m\<rparr>)\<rparr>"
  proof (cases "startswith (compute_hash (b\<lparr>nonce := i\<rparr>)) p")
    case True
    with body show ?thesis by (intro exI [of _ i]) auto
  next
    case False
    with body have "f p b (i + 1) = Some z" by simp
    from IH [OF this] obtain m where "i + 1 \<le> m"
      "startswith (compute_hash (b\<lparr>nonce := m\<rparr>)) p"
      "z = b\<lparr>nonce := m, hash := compute_hash (b\<lparr>nonce := m\<rparr>)\<rparr>" by blast
    then show ?thesis by (intro exI [of _ m]) simp
  qed
qed

lemma least_nonce:
  assumes "0 \<le> n" and "P (n :: int)"
  shows "\<exists>m. 0 \<le> m \<and> m \<le> n \<and> P m \<and> (\<forall>j. 0 \<le> j \<and> j < m \<longrightarrow> \<not> P j)"
proof -
  let ?Q = "\<lambda>i. P (int i)"
  from assms have q: "?Q (nat n)" by simp
  let ?m = "LEAST i. ?Q i"
  have m: "?Q ?m" using q by (rule LeastI)
  have le: "?m \<le> nat n" using q by (rule Least_le)
  have min: "\<not> ?Q i" if "i < ?m" for i using that by (rule not_less_Least)
  show ?thesis
  proof (intro exI [of _ "int ?m"] conjI allI impI)
    show "0 \<le> int ?m" by simp
    show "int ?m \<le> n" using le assms(1) by linarith
    show "P (int ?m)" by (rule m)
  next
    fix j assume j: "0 \<le> j \<and> j < int ?m"
    then have "nat j < ?m" by linarith
    from min [OF this] j show "\<not> P j" by simp
  qed
qed

lemma proof_of_work_no_zeros:
  "difficulty self \<le> 0 \<Longrightarrow>
   proof_of_work self blk = Some (blk\<lparr>nonce := 0, hash := compute_hash (blk\<lparr>nonce := 0\<rparr>)\<rparr>)"
  by (simp add: proof_of_work_def zeros_def pow_loop_hit startswith_Nil)

lemma proof_of_work_SomeD:
  "proof_of_work self blk = Some y \<Longrightarrow>
   \<exists>m\<ge>0. startswith (compute_hash (blk\<lparr>nonce := m\<rparr>)) (zeros (difficulty self))
        \<and> y = blk\<lparr>nonce := m, hash := compute_hash (blk\<lparr>nonce := m\<rparr>)\<rparr>"
  unfolding proof_of_work_def by (rule pow_loop_SomeD)


lemma from_dict_to_dict: "from_dict (to_dict b) = Inr b"
  by (simp add: from_dict_def to_dict_def get_default_def)



section \<open>Digests of the sample blocks\<close>

text \<open>
  The digests of the genesis candidate at nonce 0 and at nonce 1 are computed in steps:
  the JSON text, its padded words, the compression of each 64-byte block, the digest.
\<close>

lemma nat_str_digit: "n < 10 \<Longrightarrow> nat_str n = [digit_char n]"
  by (simp add: nat_str.simps)

lemma nat_str_more: "\<not> n < 10 \<Longrightarrow> nat_str n = nat_str (n div 10) @ [digit_char (n mod 10)]"
  by (subst nat_str.simps) simp

lemmas json_eval = nat_str_digit nat_str_more int_str_def float_repr_finite_def Let_def
  json_string_def json_escape_def sort_items_def digit_char_def

lemma schedule_numeral:
  "schedule (numeral k) ws =
     schedule (pred_numeral k)
       (add32 (add32 (add32 (small_sigma1 (ws ! 1)) (ws ! 6)) (small_sigma0 (ws ! 14))) (ws ! 15) # ws)"
  by (simp add: numeral_eq_Suc)

lemma replicate_numeral: "replicate (numeral k) x = x # replicate (pred_numeral k) x"
  by (simp add: numeral_eq_Suc)

lemmas compress_eval = sha256_compress_def sha256_k_def schedule_numeral
  sha256_round_def round_t1_def round_t2_def round_state_def add32_def rotr_def shr_def
  small_sigma0_def small_sigma1_def big_sigma0_def big_sigma1_def ch_def maj_def

lemma nonce0_words:
  \<open>be_words (sha256_pad (map of_char
     ''{"index": 0, "nonce": 0, "previous_hash": "0", "timestamp": 1700000258.0, "transactions": []}'')) =
     [0x7b22696e, 0x64657822, 0x3a20302c, 0x20226e6f, 0x6e636522, 0x3a20302c, 0x20227072,
      0x6576696f, 0x75735f68, 0x61736822, 0x3a202230, 0x222c2022, 0x74696d65, 0x7374616d,
      0x70223a20, 0x31373030, 0x30303032, 0x35382e30, 0x2c202274, 0x72616e73, 0x61637469,
      0x6f6e7322, 0x3a205b5d, 0x7d800000, 0, 0, 0, 0, 0, 0, 0, 0x000002e8]\<close>
  by (simp add: sha256_pad_def be_bytes_def replicate_numeral upt_rec)

lemma nonce0_block1:
  "sha256_compress
     [0x6a09e667, 0xbb67ae85, 0x3c6ef372, 0xa54ff53a, 0x510e527f, 0x9b05688c, 0x1f83d9ab,
      0x5be0cd19]
     [0x7b22696e, 0x64657822, 0x3a20302c, 0x20226e6f, 0x6e636522, 0x3a20302c, 0x20227072,
      0x6576696f, 0x75735f68, 0x61736822, 0x3a202230, 0x222c2022, 0x74696d65, 0x7374616d,
      0x70223a20, 0x31373030] =
     [0xa9b6184b, 0x320da0c7, 0x8def2a42, 0x3aad0291, 0x5834284a, 0x93992b5d, 0x9e0807ad,
      0xd707721d]"
  by (simp add: compress_eval)

lemma nonce0_block2:
  "sha256_compress
     [0xa9b6184b, 0x320da0c7, 0x8def2a42, 0x3aad0291, 0x5834284a, 0x93992b5d, 0x9e0807ad,
      0xd707721d]
     [0x30303032, 0x35382e30, 0x2c202274, 0x72616e73, 0x61637469, 0x6f6e7322, 0x3a205b5d,
      0x7d800000, 0, 0, 0, 0, 0, 0, 0, 0x000002e8] =
     [0x12a0bcab, 0xea164e7e, 0x8666a9a0, 0xc66aa8d6, 0x912e8048, 0xb3e026d9, 0x56890284,
      0x8b800d29]"
  by (simp add: compress_eval)

lemma nonce0_digest:
  \<open>sha256_hexdigest
     ''{"index": 0, "nonce": 0, "previous_hash": "0", "timestamp": 1700000258.0, "transactions": []}'' =
     ''12a0bcabea164e7e8666a9a0c66aa8d6912e8048b3e026d9568902848b800d29''\<close>
  unfolding sha256_hexdigest_def nonce0_words
  by (simp add: sha256_words_def sha256_h0_def nonce0_block1 nonce0_block2
      hex_word_def digit_char_def upt_rec)

lemma nonce1_words:
  \<open>be_words (sha256_pad (map of_char
     ''{"index": 0, "nonce": 1, "previous_hash": "0", "timestamp": 1700000258.0, "transactions": []}'')) =
     [0x7b22696e, 0x64657822, 0x3a20302c, 0x20226e6f, 0x6e636522, 0x3a20312c, 0x20227072,
      0x6576696f, 0x75735f68, 0x61736822, 0x3a202230, 0x222c2022, 0x74696d65, 0x7374616d,
      0x70223a20, 0x31373030, 0x30303032, 0x35382e30, 0x2c202274, 0x72616e73, 0x61637469,
      0x6f6e7322, 0x3a205b5d, 0x7d800000, 0, 0, 0, 0, 0, 0, 0, 0x000002e8]\<close>
  by (simp add: sha256_pad_def be_bytes_def replicate_numeral upt_rec)

lemma nonce1_block1:
  "sha256_compress
     [0x6a09e667, 0xbb67ae85, 0x3c6ef372, 0xa54ff53a, 0x510e527f, 0x9b05688c, 0x1f83d9ab,
      0x5be0cd19]
     [0x7b22696e, 0x64657822, 0x3a20302c, 0x20226e6f, 0x6e636522, 0x3a20312c, 0x20227072,
      0x6576696f, 0x75735f68, 0x61736822, 0x3a202230, 0x222c2022, 0x74696d65, 0x7374616d,
      0x70223a20, 0x31373030] =
     [0x9162bcba, 0xd5efdc4b, 0xaa64deed, 0xe2f5e7cc, 0x8fd61262, 0x86cac6d7, 0x87c08b19,
      0xaf883199]"
  by (simp add: compress_eval)

lemma nonce1_block2:
  "sha256_compress
     [0x9162bcba, 0xd5efdc4b, 0xaa64deed, 0xe2f5e7cc, 0x8fd61262, 0x86cac6d7, 0x87c08b19,
      0xaf883199]
     [0x30303032, 0x35382e30, 0x2c202274, 0x72616e73, 0x61637469, 0x6f6e7322, 0x3a205b5d,
      0x7d800000, 0, 0, 0, 0, 0, 0, 0, 0x000002e8] =
     [0x00b01744, 0x75055d66, 0x179684b6, 0x8ea304c5, 0x73571850, 0x56c2a123, 0xeba3e2b2,
      0x367e6d00]"
  by (simp add: compress_eval)

lemma nonce1_digest:
  \<open>sha256_hexdigest
     ''{"index": 0, "nonce": 1, "previous_hash": "0", "timestamp": 1700000258.0, "transactions": []}'' =
     ''00b0174475055d66179684b68ea304c57357185056c2a123eba3e2b2367e6d00''\<close>
  unfolding sha256_hexdigest_def nonce1_words
  by (simp add: sha256_words_def sha256_h0_def nonce1_block1 nonce1_block2
      hex_word_def digit_char_def upt_rec)


lemma compute_hash_nonce0:
  "compute_hash candidate_d2
   = ''12a0bcabea164e7e8666a9a0c66aa8d6912e8048b3e026d9568902848b800d29''"
  by (simp add: candidate_d2_def compute_hash_def json_eval nonce0_digest)

lemma compute_hash_nonce1:
  "compute_hash (candidate_d2\<lparr>nonce := 1\<rparr>)
   = ''00b0174475055d66179684b68ea304c57357185056c2a123eba3e2b2367e6d00''"
  by (simp add: candidate_d2_def compute_hash_def json_eval nonce1_digest)

lemma compute_hash_genesis_d2: "compute_hash genesis_d2 = hash genesis_d2"
proof -
  have "compute_hash genesis_d2 = compute_hash (candidate_d2\<lparr>nonce := 1\<rparr>)"
    by (simp add: compute_hash_def genesis_d2_def candidate_d2_def)
  then show ?thesis by (simp add: compute_hash_nonce1 genesis_d2_def)
qed

lemma proof_of_work_d2: "proof_of_work ledger_d2 candidate_d2 = Some genesis_d2"
proof -
  have miss: "\<not> startswith (compute_hash (candidate_d2\<lparr>nonce := 0\<rparr>)) ''00''"
    using compute_hash_nonce0 by (simp add: candidate_d2_def startswith_def)
  have hit: "startswith (compute_hash (candidate_d2\<lparr>nonce := 0 + 1\<rparr>)) ''00''"
    by (simp add: compute_hash_nonce1 startswith_def)
  have "pow_loop ''00'' candidate_d2 0 = pow_loop ''00'' candidate_d2 (0 + 1)"
    using miss by (rule pow_loop_miss)
  also have "\<dots> = Some (candidate_d2\<lparr>nonce := 0 + 1,
      hash := compute_hash (candidate_d2\<lparr>nonce := 0 + 1\<rparr>)\<rparr>)"
    using hit by (rule pow_loop_hit)
  also have "\<dots> = Some genesis_d2"
    by (simp add: compute_hash_nonce1) (simp add: candidate_d2_def genesis_d2_def)
  finally show ?thesis
    by (simp add: proof_of_work_def zeros_def ledger_d2_def replicate_numeral)
qed

lemma valid_genesis_d2: "valid_chain_spec 2 [genesis_d2]"
  using compute_hash_genesis_d2
  by (simp add: valid_chain_spec_def zeros_def replicate_numeral startswith_def)
    (simp add: genesis_d2_def)

section \<open>The chain validator\<close>

text \<open>
  C1. For a non-empty chain given to \<^verbatim>\<open>is_valid_chain\<close>, the result is true exactly when
  the first block has index 0, previous hash \<^verbatim>\<open>"0"\<close> and a non-empty stored hash that is
  its recomputed digest and starts with as many zeros as the difficulty says, and every
  block at a position \<open>i > 0\<close> has index \<open>i\<close>, the stored hash of the block before it as
  previous hash, a recomputed digest equal to its stored hash, and a stored hash with
  the zeros. This holds for every difficulty (a negative one asks for no zeros).
\<close>

theorem is_valid_chain_iff:
  "c \<noteq> [] \<Longrightarrow>
   is_valid_chain self (Some c) \<longleftrightarrow>
     index (c ! 0) = 0 \<and> previous_hash (c ! 0) = ''0''
     \<and> hash (c ! 0) \<noteq> [] \<and> hash (c ! 0) = compute_hash (c ! 0)
     \<and> startswith (hash (c ! 0)) (replicate (nat (difficulty self)) CHR ''0'')
     \<and> (\<forall>i. 0 < i \<and> i < length c \<longrightarrow>
           index (c ! i) = int i
           \<and> previous_hash (c ! i) = hash (c ! (i - 1))
           \<and> compute_hash (c ! i) = hash (c ! i)
           \<and> startswith (hash (c ! i)) (replicate (nat (difficulty self)) CHR ''0''))"
proof -
  assume ne: "c \<noteq> []"
  have range: "(\<forall>i \<in> {1..<length c}. P i) \<longleftrightarrow> (\<forall>i. 0 < i \<and> i < length c \<longrightarrow> P i)" for P
    by auto
  from ne have "is_valid_chain self (Some c) = valid_chain_spec (difficulty self) c"
    by (rule is_valid_chain_Some)
  also have "\<dots> \<longleftrightarrow>
     index (c ! 0) = 0 \<and> previous_hash (c ! 0) = ''0''
     \<and> hash (c ! 0) \<noteq> [] \<and> hash (c ! 0) = compute_hash (c ! 0)
     \<and> startswith (hash (c ! 0)) (replicate (nat (difficulty self)) CHR ''0'')
     \<and> (\<forall>i. 0 < i \<and> i < length c \<longrightarrow>
           index (c ! i) = int i
           \<and> previous_hash (c ! i) = hash (c ! (i - 1))
           \<and> compute_hash (c ! i) = hash (c ! i)
           \<and> startswith (hash (c ! i)) (replicate (nat (difficulty self)) CHR ''0''))"
    using ne unfolding valid_chain_spec_def zeros_def range by simp
  finally show ?thesis .
qed

text \<open>
  A chain of two blocks at difficulty 0; the genesis block mined at difficulty 2; and the
  same block with nonce 0 and that nonce's digest, which lacks the two zeros.
\<close>

theorem is_valid_chain_iff_witness:
  "[genesis0, block1 [PDict alice_pays_bob]] \<noteq> []
   \<and> is_valid_chain ledger0 (Some [genesis0, block1 [PDict alice_pays_bob]])
   \<and> [genesis_d2] \<noteq> []
   \<and> is_valid_chain ledger_d2 (Some [genesis_d2])
   \<and> \<not> is_valid_chain ledger_d2 (Some [candidate_d2\<lparr>hash := compute_hash candidate_d2\<rparr>])"
proof -
  let ?c = "[genesis0, block1 [PDict alice_pays_bob]]"
  have ne: "?c \<noteq> []" by simp
  have v0: "is_valid_chain ledger0 (Some ?c)"
    by (rule is_valid_chain_iff [OF ne, THEN iffD2], intro conjI allI impI)
      (simp_all add: genesis0_def block1_def ledger0_def startswith_def
        compute_hash_nonempty compute_hash_stored)
  have ne2: "[genesis_d2] \<noteq> []" by simp
  have v2: "is_valid_chain ledger_d2 (Some [genesis_d2])"
    by (rule is_valid_chain_iff [OF ne2, THEN iffD2], intro conjI allI impI)
      (simp_all add: compute_hash_genesis_d2,
        simp_all add: genesis_d2_def ledger_d2_def startswith_def replicate_numeral)
  have ne3: "[candidate_d2\<lparr>hash := compute_hash candidate_d2\<rparr>] \<noteq> []" by simp
  have "\<not> startswith (hash (candidate_d2\<lparr>hash := compute_hash candidate_d2\<rparr>))
            (replicate (nat (difficulty ledger_d2)) CHR ''0'')"
    by (simp add: compute_hash_nonce0 ledger_d2_def startswith_def replicate_numeral)
  with is_valid_chain_iff [OF ne3, of ledger_d2]
  have v3: "\<not> is_valid_chain ledger_d2 (Some [candidate_d2\<lparr>hash := compute_hash candidate_d2\<rparr>])"
    by simp
  from ne v0 ne2 v2 v3 show ?thesis by simp
qed

text \<open>
  C2. An empty chain given to the validator should be invalid. The code replaces an
  empty argument by the ledger's own chain (\<^verbatim>\<open>chain or self.chain\<close>) before it tests for
  emptiness, so on a ledger whose own chain is valid the call with an empty list
  returns true: here the ledger of difficulty 2 that holds its genesis block.
\<close>

theorem is_valid_chain_empty_argument:
  "is_valid_chain ledger_d2 (Some []) = True"
proof -
  have "is_valid_chain ledger_d2 (Some []) = is_valid_chain ledger_d2 None"
    by (simp add: is_valid_chain_def)
  also have "\<dots> = valid_chain_spec 2 [genesis_d2]"
    by (simp add: is_valid_chain_None ledger_d2_def)
  finally show ?thesis by (simp add: valid_genesis_d2)
qed

text \<open>The ledger's own chain is not empty, and the empty argument passes.\<close>

theorem is_valid_chain_empty_argument_witness:
  "chain ledger_d2 = [genesis_d2] \<and> difficulty ledger_d2 = 2
   \<and> is_valid_chain ledger_d2 (Some [])"
  using is_valid_chain_empty_argument by (simp add: ledger_d2_def)

section \<open>Proof of work\<close>

text \<open>
  C4. When some nonce \<open>n \<ge> 0\<close> gives the block a digest with the zeros of the difficulty,
  \<^verbatim>\<open>proof_of_work\<close> returns: the block comes back with the smallest such nonce and with
  that nonce's digest as its hash, its other fields as they were. The nonce and the hash
  the block came with have no part in the result.
\<close>

theorem proof_of_work_least:
  assumes "0 \<le> n"
    and "startswith (compute_hash (blk\<lparr>nonce := n\<rparr>)) (replicate (nat (difficulty self)) CHR ''0'')"
  shows "\<exists>m. 0 \<le> m \<and> m \<le> n
      \<and> startswith (compute_hash (blk\<lparr>nonce := m\<rparr>)) (replicate (nat (difficulty self)) CHR ''0'')
      \<and> (\<forall>j. 0 \<le> j \<and> j < m \<longrightarrow>
            \<not> startswith (compute_hash (blk\<lparr>nonce := j\<rparr>)) (replicate (nat (difficulty self)) CHR ''0''))
      \<and> proof_of_work self blk = Some (blk\<lparr>nonce := m, hash := compute_hash (blk\<lparr>nonce := m\<rparr>)\<rparr>)
      \<and> (\<forall>n0 h0. proof_of_work self (blk\<lparr>nonce := n0, hash := h0\<rparr>) = proof_of_work self blk)"
proof -
  let ?p = "replicate (nat (difficulty self)) CHR ''0''"
  let ?P = "\<lambda>j. startswith (compute_hash (blk\<lparr>nonce := j\<rparr>)) ?p"
  from least_nonce [of n ?P, OF assms] obtain m
    where m: "0 \<le> m" "m \<le> n" "?P m" "\<forall>j. 0 \<le> j \<and> j < m \<longrightarrow> \<not> ?P j" by blast
  have digest: "compute_hash (blk\<lparr>hash := h0, nonce := j\<rparr>) = compute_hash (blk\<lparr>nonce := j\<rparr>)"
    for h0 j by (simp add: compute_hash_def)
  have run: "pow_loop ?p blk 0 = Some (blk\<lparr>nonce := m, hash := compute_hash (blk\<lparr>nonce := m\<rparr>)\<rparr>)"
    using m by (intro pow_loop_least) auto
  have "pow_loop ?p (blk\<lparr>nonce := n0, hash := h0\<rparr>) 0
        = Some (blk\<lparr>nonce := m, hash := compute_hash (blk\<lparr>nonce := m\<rparr>)\<rparr>)" for n0 h0
    using pow_loop_least [of 0 m "blk\<lparr>nonce := n0, hash := h0\<rparr>" ?p] m
    by (simp add: digest)
  with run m show ?thesis
    unfolding proof_of_work_def zeros_def by (intro exI [of _ m]) simp
qed

text \<open>
  At difficulty 2 the genesis candidate fails at nonce 0 and succeeds at nonce 1, so the
  search returns the block with nonce 1, whatever nonce and hash the block had.
\<close>

theorem proof_of_work_least_witness:
  "(0::int) \<le> 1
   \<and> startswith (compute_hash (candidate_d2\<lparr>nonce := 1\<rparr>))
        (replicate (nat (difficulty ledger_d2)) CHR ''0'')
   \<and> \<not> startswith (compute_hash (candidate_d2\<lparr>nonce := 0\<rparr>))
        (replicate (nat (difficulty ledger_d2)) CHR ''0'')
   \<and> proof_of_work ledger_d2 candidate_d2 = Some genesis_d2
   \<and> proof_of_work ledger_d2 (candidate_d2\<lparr>nonce := 41, hash := ''stale''\<rparr>) = Some genesis_d2"
proof -
  let ?p = "replicate (nat (difficulty ledger_d2)) CHR ''0''"
  have p: "?p = ''00''" by (simp add: ledger_d2_def replicate_numeral)
  have hit: "startswith (compute_hash (candidate_d2\<lparr>nonce := 1\<rparr>)) ?p"
    unfolding p by (simp add: compute_hash_nonce1 startswith_def)
  have same: "candidate_d2\<lparr>nonce := 0\<rparr> = candidate_d2" by (simp add: candidate_d2_def)
  have miss: "\<not> startswith (compute_hash (candidate_d2\<lparr>nonce := 0\<rparr>)) ?p"
    unfolding p same by (simp add: compute_hash_nonce0 startswith_def)
  from proof_of_work_least [of 1 candidate_d2 ledger_d2, OF _ hit] obtain m where
    m: "0 \<le> m" "m \<le> 1"
      "startswith (compute_hash (candidate_d2\<lparr>nonce := m\<rparr>)) ?p"
      "proof_of_work ledger_d2 candidate_d2
        = Some (candidate_d2\<lparr>nonce := m, hash := compute_hash (candidate_d2\<lparr>nonce := m\<rparr>)\<rparr>)"
      "\<forall>n0 h0. proof_of_work ledger_d2 (candidate_d2\<lparr>nonce := n0, hash := h0\<rparr>)
        = proof_of_work ledger_d2 candidate_d2"
    by auto
  from m(1,2) have "m = 0 \<or> m = 1" by linarith
  with m(3) miss have "m = 1" by auto
  with m(4) have "proof_of_work ledger_d2 candidate_d2 = Some genesis_d2"
    by (simp add: compute_hash_nonce1) (simp add: candidate_d2_def genesis_d2_def)
  with m(5) hit miss show ?thesis by simp
qed

section \<open>Mining\<close>

text \<open>
  C6. When the pool is not empty and \<^verbatim>\<open>mine_pending_transactions\<close> returns a block, the
  pool is empty afterwards, the chain is the old chain with that block at its end (one
  block longer), and the block has the old chain's length as index, the stored hash of
  the old last block as previous hash, and the old pool, in order, as transactions.
\<close>

theorem mine_pending_transactions_appends:
  assumes "pending_transactions self \<noteq> []"
    and "mine_pending_transactions now self fs = Some (Inr blk, self', fs')"
  shows "pending_transactions self' = []
    \<and> length (chain self') = length (chain self) + 1
    \<and> chain self' = chain self @ [blk]
    \<and> index blk = int (length (chain self))
    \<and> chain self \<noteq> []
    \<and> previous_hash blk = hash (last (chain self))
    \<and> transactions blk = pending_transactions self"
proof -
  let ?cand = "\<lparr>index = int (length (chain self)), timestamp = now,
                 transactions = pending_transactions self,
                 previous_hash = hash (last (chain self)), nonce = 0, hash = []\<rparr>"
  from assms have ne: "chain self \<noteq> []"
    by (auto simp add: mine_pending_transactions_def split: if_splits)
  from assms ne obtain b where b: "proof_of_work self ?cand = Some b"
    and res: "blk = b" "self' = self\<lparr>chain := chain self @ [b], pending_transactions := []\<rparr>"
    by (auto simp add: mine_pending_transactions_def Let_def split: option.splits)
  from proof_of_work_SomeD [OF b] obtain m where
    "b = ?cand\<lparr>nonce := m, hash := compute_hash (?cand\<lparr>nonce := m\<rparr>)\<rparr>" by blast
  with res ne show ?thesis by simp
qed

text \<open>
  Mining Alice's payment on top of the genesis block.
\<close>

theorem mine_pending_transactions_appends_witness:
  "pending_transactions ledger1 \<noteq> []
   \<and> mine_pending_transactions now1 ledger1 Map.empty
       = Some (Inr (block1 [PDict alice_pays_bob]),
               ledger0\<lparr>chain := [genesis0, block1 [PDict alice_pays_bob]]\<rparr>,
               save_chain (ledger0\<lparr>chain := [genesis0, block1 [PDict alice_pays_bob]]\<rparr>) Map.empty)
   \<and> index (block1 [PDict alice_pays_bob]) = int (length (chain ledger1))
   \<and> transactions (block1 [PDict alice_pays_bob]) = pending_transactions ledger1"
proof -
  have h1: "pending_transactions ledger1 \<noteq> []"
    by (simp add: ledger1_def)
  have h2: "mine_pending_transactions now1 ledger1 Map.empty
       = Some (Inr (block1 [PDict alice_pays_bob]),
               ledger0\<lparr>chain := [genesis0, block1 [PDict alice_pays_bob]]\<rparr>,
               save_chain (ledger0\<lparr>chain := [genesis0, block1 [PDict alice_pays_bob]]\<rparr>) Map.empty)"
    by (simp add: mine_pending_transactions_def ledger1_def ledger0_def now1_def block1_def
        proof_of_work_no_zeros autosaved_def Let_def)
  from mine_pending_transactions_appends [OF h1 h2] h1 h2 show ?thesis by simp
qed

text \<open>
  C7. With an empty pool \<^verbatim>\<open>mine_pending_transactions\<close> raises \<^verbatim>\<open>ValueError\<close> (the
  specification's EmptyPoolError): no block is produced, and the chain, the pool and the
  stored file are as before.
\<close>

theorem mine_pending_transactions_empty_pool:
  "pending_transactions self = [] \<Longrightarrow>
   mine_pending_transactions now self fs = Some (Inl ValueError, self, fs)"
  by (simp add: mine_pending_transactions_def)

text \<open>
  The ledger that holds the genesis block only has nothing to mine.
\<close>

theorem mine_pending_transactions_empty_pool_witness:
  "pending_transactions ledger_d2 = []
   \<and> mine_pending_transactions now1 ledger_d2 Map.empty
       = Some (Inl ValueError, ledger_d2, Map.empty)"
  using mine_pending_transactions_empty_pool [of ledger_d2 now1 Map.empty]
  by (simp add: ledger_d2_def)

section \<open>Admitting transactions\<close>

lemma accepted_amount:
  "is_int_or_float a \<and> \<not> le_zero a \<longleftrightarrow> positive_number a \<or> a = PFloat NaN"
proof (cases a)
  case (PFloat f)
  then show ?thesis by (cases f) auto
qed auto

lemma validate_transaction_iff:
  "validate_transaction t = Inr () \<longleftrightarrow>
     has_key t ''sender'' \<and> has_key t ''recipient'' \<and> has_key t ''amount''
     \<and> (\<exists>a. map_of t ''amount'' = Some a \<and> (positive_number a \<or> a = PFloat NaN))"
  by (auto simp add: validate_transaction_def has_key_def accepted_amount [symmetric]
      split: option.splits)

lemma validate_transaction_raises:
  "validate_transaction t \<noteq> Inr () \<Longrightarrow> validate_transaction t = Inl ValueError"
  by (auto simp add: validate_transaction_def Let_def map_of_eq_None_iff split: option.splits if_splits)

lemma add_transaction_cases:
  "add_transaction t self fs =
     (if validate_transaction t = Inr ()
      then (Inr (), self\<lparr>pending_transactions := pending_transactions self @ [PDict t]\<rparr>,
            autosaved (self\<lparr>pending_transactions := pending_transactions self @ [PDict t]\<rparr>) fs)
      else (Inl ValueError, self, fs))"
proof (cases "validate_transaction t")
  case (Inl e)
  then have "validate_transaction t \<noteq> Inr ()" by simp
  from validate_transaction_raises [OF this] Inl show ?thesis
    by (simp add: add_transaction_def)
next
  case (Inr u)
  then show ?thesis by (simp add: add_transaction_def Let_def)
qed

text \<open>
  C8. \<^verbatim>\<open>add_transaction\<close> should raise exactly when a mandatory key is missing or the
  amount is not a positive number. A NaN is not a positive number, yet the comparison
  \<^verbatim>\<open>amount <= 0\<close> is false for it, so a payment whose amount is NaN is admitted: it is
  appended to the pool and saved. (For every other amount the test is the stated one:
  \<open>validate_transaction_iff\<close>.)
\<close>

theorem add_transaction_nan_amount:
  "map_of nan_payment ''amount'' = Some (PFloat NaN)
   \<and> positive_number (PFloat NaN) = False
   \<and> add_transaction nan_payment ledger_d2 Map.empty
       = (Inr (), ledger_d2\<lparr>pending_transactions := [PDict nan_payment]\<rparr>,
          save_chain (ledger_d2\<lparr>pending_transactions := [PDict nan_payment]\<rparr>) Map.empty)"
  by (simp add: add_transaction_def validate_transaction_def nan_payment_def ledger_d2_def
      autosaved_def Let_def)

text \<open>
  The call returns and the pool holds the payment.
\<close>

theorem add_transaction_nan_amount_witness:
  "fst (add_transaction nan_payment ledger_d2 Map.empty) = Inr ()
   \<and> pending_transactions (fst (snd (add_transaction nan_payment ledger_d2 Map.empty)))
       = [PDict nan_payment]"
  using add_transaction_nan_amount by simp

section \<open>Conflict resolution\<close>

lemma first_longest_None: "first_longest xs = None \<longleftrightarrow> xs = []"
  by (cases xs) (auto split: option.splits)

lemma first_longest_filter:
  "first_longest (filter (\<lambda>x. k < length x) xs) =
     (case first_longest xs of
        None \<Rightarrow> None
      | Some c \<Rightarrow> if k < length c then Some c else None)"
  by (induction xs) (auto split: option.splits)

lemma first_longest_Some:
  "first_longest xs = Some c \<Longrightarrow>
   \<exists>pre post. xs = pre @ c # post
     \<and> (\<forall>x \<in> set pre. length x < length c) \<and> (\<forall>x \<in> set post. length x \<le> length c)"
proof (induction xs arbitrary: c)
  case Nil
  then show ?case by simp
next
  case (Cons x xs)
  show ?case
  proof (cases "first_longest xs")
    case None
    then have "xs = []" by (simp add: first_longest_None)
    with Cons.prems have "x # xs = [] @ c # []
        \<and> (\<forall>y \<in> set []. length y < length c) \<and> (\<forall>y \<in> set []. length y \<le> length c)"
      by simp
    then show ?thesis by blast
  next
    case (Some c')
    from Cons.IH [OF Some] obtain pre post where
      xs: "xs = pre @ c' # post" and pre: "\<forall>y \<in> set pre. length y < length c'"
      and post: "\<forall>y \<in> set post. length y \<le> length c'" by blast
    show ?thesis
    proof (cases "length x < length c'")
      case True
      with Cons.prems Some have "c = c'" by simp
      with xs pre post True have "x # xs = (x # pre) @ c # post
          \<and> (\<forall>y \<in> set (x # pre). length y < length c) \<and> (\<forall>y \<in> set post. length y \<le> length c)"
        by simp
      then show ?thesis by blast
    next
      case False
      with Cons.prems Some have c: "c = x" by simp
      from xs pre post False have "\<forall>y \<in> set xs. length y \<le> length x"
        by auto
      with c have "x # xs = [] @ c # xs
          \<and> (\<forall>y \<in> set []. length y < length c) \<and> (\<forall>y \<in> set xs. length y \<le> length c)"
        by simp
      then show ?thesis by blast
    qed
  qed
qed

lemma deserialised_Cons:
  "deserialised (raw # rest) =
     (case from_dicts raw of Inl _ \<Rightarrow> deserialised rest | Inr c \<Rightarrow> c # deserialised rest)"
  by (simp add: deserialised_def split: sum.splits)

lemma deserialised_Nil: "deserialised [] = []"
  by (simp add: deserialised_def)

lemma first_longest_filter_conj:
  "first_longest (filter (\<lambda>x. P x \<and> k < length x) xs) =
     (case first_longest (filter P xs) of
        None \<Rightarrow> None
      | Some c \<Rightarrow> if k < length c then Some c else None)"
proof -
  have "filter (\<lambda>x. P x \<and> k < length x) xs = filter (\<lambda>x. k < length x) (filter P xs)"
    by simp
  then show ?thesis by (simp only: first_longest_filter)
qed

lemma resolve_loop_eq:
  "resolve_loop self raws (acc, m) =
     (case first_longest (filter (\<lambda>c. valid_chain_spec (difficulty self) c \<and> m < length c)
             (deserialised raws)) of
        None \<Rightarrow> (acc, m)
      | Some c \<Rightarrow> (Some c, length c))"
proof (induction raws arbitrary: acc m)
  case Nil
  then show ?case by (simp add: deserialised_Nil)
next
  case (Cons raw rest)
  let ?valid = "valid_chain_spec (difficulty self)"
  let ?V = "filter ?valid (deserialised rest)"
  show ?case
  proof (cases "from_dicts raw")
    case (Inl e)
    then show ?thesis by (simp add: Cons.IH deserialised_Cons)
  next
    case (Inr c0)
    show ?thesis
    proof (cases "m < length c0 \<and> is_valid_chain self (Some c0)")
      case True
      then have ne: "c0 \<noteq> []" by auto
      with True have v: "?valid c0"
        by (simp add: is_valid_chain_Some)
      from True Inr have "resolve_loop self (raw # rest) (acc, m)
          = resolve_loop self rest (Some c0, length c0)" by simp
      also have "\<dots> = (case first_longest
              (filter (\<lambda>c. ?valid c \<and> length c0 < length c) (deserialised rest)) of
            None \<Rightarrow> (Some c0, length c0) | Some c \<Rightarrow> (Some c, length c))"
        by (rule Cons.IH)
      also have "\<dots> = (case first_longest
              (c0 # filter (\<lambda>c. ?valid c \<and> m < length c) (deserialised rest)) of
            None \<Rightarrow> (acc, m) | Some c \<Rightarrow> (Some c, length c))"
      proof (cases "first_longest ?V")
        case None
        then show ?thesis by (simp add: first_longest_filter_conj)
      next
        case (Some c)
        with True show ?thesis by (auto simp add: first_longest_filter_conj)
      qed
      finally show ?thesis using True v Inr by (simp add: deserialised_Cons)
    next
      case False
      then have drop: "\<not> (?valid c0 \<and> m < length c0)"
        by (cases "c0 = []") (auto simp add: is_valid_chain_Some)
      from False Inr have "resolve_loop self (raw # rest) (acc, m)
          = resolve_loop self rest (acc, m)" by auto
      with drop Inr show ?thesis by (auto simp add: Cons.IH deserialised_Cons)
    qed
  qed
qed

lemma resolve_conflicts_eq:
  "resolve_conflicts raws self fs =
     (case first_longest (qualifying self raws) of
        None \<Rightarrow> (False, self, fs)
      | Some c \<Rightarrow> (True, self\<lparr>chain := c\<rparr>, autosaved (self\<lparr>chain := c\<rparr>) fs))"
proof (cases "first_longest (qualifying self raws)")
  case None
  then show ?thesis
    by (simp add: resolve_conflicts_def resolve_loop_eq qualifying_def)
next
  case (Some c)
  from first_longest_Some [OF this] have "c \<in> set (qualifying self raws)" by auto
  then have "c \<noteq> []" by (auto simp add: qualifying_def)
  with Some show ?thesis
    by (simp add: resolve_conflicts_def resolve_loop_eq qualifying_def Let_def)
qed

lemma deserialised_neighbours:
  "deserialised neighbours
     = [[genesis0], [genesis0, block1 []], [genesis0, block1 [PDict alice_pays_bob]]]"
  by (simp add: deserialised_def neighbours_def from_dict_to_dict)
    (simp add: from_dict_def incomplete_record_def)



section \<open>Tampering\<close>




section \<open>Persistence\<close>

lemma json_decoded_native:
  "json_native v \<Longrightarrow> json_decoded v = v"
  and decoded_list_native: "native_list xs \<Longrightarrow> decoded_list xs = xs"
  and decoded_items_native: "native_items kvs \<Longrightarrow> decoded_items kvs = kvs"
  by (induction v and xs and kvs rule: json_native_native_list_native_items.induct) simp_all






section \<open>The ledger's own chain\<close>

lemma valid_chain_spec_snoc:
  assumes "valid_chain_spec d c" and "index b = int (length c)"
    and "previous_hash b = hash (last c)" and "hash b = compute_hash b"
    and "startswith (hash b) (zeros d)"
  shows "valid_chain_spec d (c @ [b])"
proof -
  from assms(1) have ne: "c \<noteq> []" by (simp add: valid_chain_spec_def)
  have later: "index ((c @ [b]) ! i) = int i
      \<and> previous_hash ((c @ [b]) ! i) = hash ((c @ [b]) ! (i - 1))
      \<and> compute_hash ((c @ [b]) ! i) = hash ((c @ [b]) ! i)
      \<and> startswith (hash ((c @ [b]) ! i)) (zeros d)"
    if i: "i \<in> {1..<length (c @ [b])}" for i
  proof (cases "i < length c")
    case True
    with i have "i \<in> {1..<length c}" by simp
    with assms(1) have "index (c ! i) = int i \<and> previous_hash (c ! i) = hash (c ! (i - 1))
        \<and> compute_hash (c ! i) = hash (c ! i) \<and> startswith (hash (c ! i)) (zeros d)"
      unfolding valid_chain_spec_def by blast
    moreover from True have "i - 1 < length c" by simp
    ultimately show ?thesis using True by (simp add: nth_append)
  next
    case False
    with i have eq: "i = length c" by simp
    with ne have "(c @ [b]) ! (i - 1) = last c"
      by (simp add: nth_append last_conv_nth)
    with eq assms(2-5) show ?thesis by simp
  qed
  from assms(1) ne have "index ((c @ [b]) ! 0) = 0 \<and> previous_hash ((c @ [b]) ! 0) = ''0''
      \<and> hash ((c @ [b]) ! 0) \<noteq> [] \<and> hash ((c @ [b]) ! 0) = compute_hash ((c @ [b]) ! 0)
      \<and> startswith (hash ((c @ [b]) ! 0)) (zeros d)"
    by (auto simp add: valid_chain_spec_def nth_append)
  with later show ?thesis unfolding valid_chain_spec_def by blast
qed

lemma create_genesis_block_valid:
  assumes "chain self = []" and "create_genesis_block now self fs = Some (g, self', fs')"
  shows "is_valid_chain self' None"
proof -
  let ?cand = "\<lparr>index = 0, timestamp = now, transactions = [], previous_hash = ''0'',
                 nonce = 0, hash = []\<rparr>"
  from assms obtain b where b: "proof_of_work self ?cand = Some b"
    and s: "self' = self\<lparr>chain := [b]\<rparr>"
    by (auto simp add: create_genesis_block_def Let_def split: option.splits)
  from proof_of_work_SomeD [OF b] obtain m where
    m: "startswith (compute_hash (?cand\<lparr>nonce := m\<rparr>)) (zeros (difficulty self))"
       "b = ?cand\<lparr>nonce := m, hash := compute_hash (?cand\<lparr>nonce := m\<rparr>)\<rparr>" by blast
  have "compute_hash b = compute_hash (?cand\<lparr>nonce := m\<rparr>)"
    unfolding m(2) by (simp add: compute_hash_def)
  with m have "valid_chain_spec (difficulty self) [b]"
    by (simp add: valid_chain_spec_def compute_hash_nonempty)
  with s show ?thesis by (simp add: is_valid_chain_None)
qed

lemma load_chain_valid:
  assumes "chain self = []" and "load_chain self fs = (True, self')"
  shows "is_valid_chain self' None"
proof -
  from assms(2) obtain loaded pending where ok: "is_valid_chain self (Some loaded)"
    and s: "self' = self\<lparr>chain := loaded, pending_transactions := pending\<rparr>"
    by (auto simp add: load_chain_def accept_loaded_def
        split: option.splits stored_file.splits document.splits sum.splits if_splits)
  have "loaded \<noteq> []"
  proof
    assume "loaded = []"
    with ok assms(1) show False by (simp add: is_valid_chain_def)
  qed
  with ok s show ?thesis by (simp add: is_valid_chain_Some is_valid_chain_None)
qed

lemma init_valid:
  assumes "init d a path now fs = Some (self, fs')"
  shows "is_valid_chain self None"
proof -
  let ?s = "\<lparr>difficulty = d, autosave = a, storage_path = path, chain = [],
             pending_transactions = []\<rparr>"
  obtain ok s1 where l: "load_chain ?s fs = (ok, s1)" by (cases "load_chain ?s fs")
  show ?thesis
  proof (cases ok)
    case True
    with l assms have "self = s1" by (simp add: init_def)
    with l True load_chain_valid [of ?s fs s1] show ?thesis by simp
  next
    case False
    with l have s1: "s1 = ?s"
      by (auto simp add: load_chain_def accept_loaded_def
          split: option.splits stored_file.splits document.splits sum.splits if_splits)
    from False l assms obtain g where "create_genesis_block now s1 fs = Some (g, self, fs')"
      by (auto simp add: init_def)
    with s1 create_genesis_block_valid [of s1 now fs g self fs'] show ?thesis by simp
  qed
qed

lemma add_transaction_valid:
  "is_valid_chain self None \<Longrightarrow> add_transaction t self fs = (r, self', fs') \<Longrightarrow>
   is_valid_chain self' None"
  by (auto simp add: add_transaction_cases is_valid_chain_None split: if_splits)

lemma mine_valid:
  assumes "is_valid_chain self None"
    and "mine_pending_transactions now self fs = Some (r, self', fs')"
  shows "is_valid_chain self' None"
proof (cases "pending_transactions self = [] \<or> chain self = []")
  case True
  with assms show ?thesis
    by (auto simp add: mine_pending_transactions_def split: if_splits)
next
  case False
  let ?cand = "\<lparr>index = int (length (chain self)), timestamp = now,
                 transactions = pending_transactions self,
                 previous_hash = hash (last (chain self)), nonce = 0, hash = []\<rparr>"
  from assms(2) False obtain b where b: "proof_of_work self ?cand = Some b"
    and s: "self' = self\<lparr>chain := chain self @ [b], pending_transactions := []\<rparr>"
    by (auto simp add: mine_pending_transactions_def Let_def split: option.splits)
  from proof_of_work_SomeD [OF b] obtain m where
    m: "startswith (compute_hash (?cand\<lparr>nonce := m\<rparr>)) (zeros (difficulty self))"
       "b = ?cand\<lparr>nonce := m, hash := compute_hash (?cand\<lparr>nonce := m\<rparr>)\<rparr>" by blast
  have h: "compute_hash b = compute_hash (?cand\<lparr>nonce := m\<rparr>)"
    unfolding m(2) by (simp add: compute_hash_def)
  from assms(1) have "valid_chain_spec (difficulty self) (chain self)"
    by (simp add: is_valid_chain_None)
  then have "valid_chain_spec (difficulty self) (chain self @ [b])"
    using m h by (intro valid_chain_spec_snoc) simp_all
  with s show ?thesis by (simp add: is_valid_chain_None)
qed

lemma resolve_valid:
  assumes "is_valid_chain self None" and "resolve_conflicts raws self fs = (r, self', fs')"
  shows "is_valid_chain self' None"
proof (cases "first_longest (qualifying self raws)")
  case None
  with assms show ?thesis by (simp add: resolve_conflicts_eq)
next
  case (Some c)
  from first_longest_Some [OF this] have "c \<in> set (qualifying self raws)" by auto
  then have "valid_chain_spec (difficulty self) c" by (simp add: qualifying_def)
  with Some assms(2) show ?thesis
    by (auto simp add: resolve_conflicts_eq is_valid_chain_None)
qed

lemma exec_valid:
  assumes "is_valid_chain (fst st) None" and "exec x st = Some st'"
  shows "is_valid_chain (fst st') None"
proof (cases st)
  case (Pair self fs)
  show ?thesis
  proof (cases x)
    case (AddTransaction t)
    with assms Pair show ?thesis
      by (auto split: prod.splits sum.splits dest: add_transaction_valid)
  next
    case (Mine now)
    with assms Pair show ?thesis
      by (auto split: option.splits prod.splits sum.splits dest: mine_valid)
  next
    case (Resolve raws)
    with assms Pair show ?thesis
      by (auto split: prod.splits dest: resolve_valid)
  qed
qed

lemma run_valid:
  "is_valid_chain (fst st) None \<Longrightarrow> run xs st = Some st' \<Longrightarrow> is_valid_chain (fst st') None"
proof (induction xs arbitrary: st)
  case Nil
  then show ?case by simp
next
  case (Cons x xs)
  then show ?case by (auto split: option.splits dest: exec_valid)
qed

text \<open>
  C10. A ledger is constructed (its chain is loaded from the store or starts with a
  fresh genesis block) and then any sequence of \<^verbatim>\<open>add_transaction\<close>,
  \<^verbatim>\<open>mine_pending_transactions\<close> and \<^verbatim>\<open>resolve_conflicts\<close> calls runs, each of them
  returning. Then \<^verbatim>\<open>is_valid_chain\<close> of the ledger's own chain is true.
\<close>

theorem own_chain_stays_valid:
  assumes "init d a path now fs = Some st" and "run ops st = Some (self, fs')"
  shows "is_valid_chain self None"
proof -
  from assms(1) have "is_valid_chain (fst st) None"
    by (cases st) (simp add: init_valid)
  from run_valid [OF this assms(2)] show ?thesis by simp
qed

text \<open>
  A ledger constructed over an empty store at difficulty 0, one payment admitted and
  mined, and a conflict resolution that finds no longer chain. And a ledger constructed
  at difficulty 2, which admits a payment and resolves against a chain of its own
  length and a record that does not deserialise.
\<close>

theorem own_chain_stays_valid_witness:
  "init 0 True ''blockchain.json'' (Finite False 17 8) Map.empty
     = Some (ledger0, save_chain ledger0 Map.empty)
   \<and> map_option fst
        (run [AddTransaction alice_pays_bob, Mine now1, Resolve neighbours]
           (ledger0, save_chain ledger0 Map.empty))
     = Some (ledger0\<lparr>chain := [genesis0, block1 [PDict alice_pays_bob]]\<rparr>)
   \<and> is_valid_chain (ledger0\<lparr>chain := [genesis0, block1 [PDict alice_pays_bob]]\<rparr>) None
   \<and> init 2 True ''blockchain.json'' (Finite False 1700000258 0) Map.empty
     = Some (ledger_d2, save_chain ledger_d2 Map.empty)
   \<and> map_option fst
        (run [AddTransaction alice_pays_bob, Resolve [[to_dict genesis_d2], [incomplete_record]]]
           (ledger_d2, save_chain ledger_d2 Map.empty))
     = Some ledger3
   \<and> is_valid_chain ledger3 None"
proof -
  let ?s0 = "save_chain ledger0 Map.empty"
  let ?l2 = "ledger0\<lparr>chain := [genesis0, block1 [PDict alice_pays_bob]]\<rparr>"
  have i: "init 0 True ''blockchain.json'' (Finite False 17 8) Map.empty = Some (ledger0, ?s0)"
    by (simp add: init_def load_chain_def create_genesis_block_def proof_of_work_no_zeros
        autosaved_def Let_def ledger0_def genesis0_def)
  have a: "exec (AddTransaction alice_pays_bob) (ledger0, ?s0)
        = Some (ledger1, save_chain ledger1 ?s0)"
    by (simp add: add_transaction_def validate_transaction_def alice_pays_bob_def
        autosaved_def Let_def ledger1_def ledger0_def)
  have m: "exec (Mine now1) (ledger1, save_chain ledger1 ?s0)
        = Some (?l2, save_chain ?l2 (save_chain ledger1 ?s0))"
    by (simp add: mine_pending_transactions_def ledger1_def ledger0_def now1_def block1_def
        proof_of_work_no_zeros autosaved_def Let_def)
  have q: "qualifying ?l2 neighbours = []"
    by (simp add: qualifying_def deserialised_neighbours ledger0_def)
  have r: "exec (Resolve neighbours) (?l2, save_chain ?l2 (save_chain ledger1 ?s0))
        = Some (?l2, save_chain ?l2 (save_chain ledger1 ?s0))"
    by (simp add: resolve_conflicts_eq q)
  have run: "run [AddTransaction alice_pays_bob, Mine now1, Resolve neighbours] (ledger0, ?s0)
        = Some (?l2, save_chain ?l2 (save_chain ledger1 ?s0))"
    by (simp only: run.simps a m r option.case)
  note v = own_chain_stays_valid [OF i run]
  let ?t0 = "save_chain ledger_d2 Map.empty"
  have pw: "proof_of_work
      \<lparr>difficulty = 2, autosave = True, storage_path = ''blockchain.json'', chain = [],
         pending_transactions = []\<rparr> candidate_d2 = Some genesis_d2"
    using proof_of_work_d2 by (simp add: proof_of_work_def ledger_d2_def)
  have i2: "init 2 True ''blockchain.json'' (Finite False 1700000258 0) Map.empty
      = Some (ledger_d2, ?t0)"
    using pw
    by (simp add: init_def load_chain_def create_genesis_block_def autosaved_def Let_def
        ledger_d2_def candidate_d2_def)
  have a2: "exec (AddTransaction alice_pays_bob) (ledger_d2, ?t0)
        = Some (ledger3, save_chain ledger3 ?t0)"
    by (simp add: add_transaction_def validate_transaction_def alice_pays_bob_def
        autosaved_def Let_def ledger3_def ledger_d2_def)
  have d2: "deserialised [[to_dict genesis_d2], [incomplete_record]] = [[genesis_d2]]"
    by (simp add: deserialised_def from_dict_to_dict)
      (simp add: from_dict_def incomplete_record_def)
  have q2: "qualifying ledger3 [[to_dict genesis_d2], [incomplete_record]] = []"
    by (simp add: qualifying_def d2 ledger3_def ledger_d2_def)
  have r2: "exec (Resolve [[to_dict genesis_d2], [incomplete_record]])
          (ledger3, save_chain ledger3 ?t0)
        = Some (ledger3, save_chain ledger3 ?t0)"
    by (simp add: resolve_conflicts_eq q2)
  have run2: "run [AddTransaction alice_pays_bob,
                   Resolve [[to_dict genesis_d2], [incomplete_record]]] (ledger_d2, ?t0)
        = Some (ledger3, save_chain ledger3 ?t0)"
    by (simp only: run.simps a2 r2 option.case)
  note v2 = own_chain_stays_valid [OF i2 run2]
  from i run v i2 run2 v2 show ?thesis by simp
qed

end
